theory Spec2Isabelle
  imports Main "HOL-Library.Word"
begin

section \<open>JavaScript strings\<close>

text \<open>
  A JavaScript string is a sequence of 16-bit code units. The string literals of the
  source are ASCII and are written through \<open>js\<close>. A value of type
  \<open>string | undefined\<close> (or \<open>string | null\<close>) is a \<open>jsstring option\<close>; it is truthy when
  it is present and not empty. \<open>templateString\<close> is the text that a template literal
  substitutes for such a value.
\<close>

type_synonym jschar = "16 word"
type_synonym jsstring = "jschar list"
type_synonym byte = "8 word"

definition js :: "string \<Rightarrow> jsstring" where
  "js s = map (\<lambda>c. of_nat (of_char c)) s"

definition truthy :: "jsstring option \<Rightarrow> bool" where
  "truthy v = (case v of None \<Rightarrow> False | Some s \<Rightarrow> s \<noteq> [])"

definition templateString :: "jsstring option \<Rightarrow> jsstring" where
  "templateString v = (case v of None \<Rightarrow> js ''undefined'' | Some s \<Rightarrow> s)"

fun startsWith :: "jsstring \<Rightarrow> jsstring \<Rightarrow> bool" where
  "startsWith s [] = True"
| "startsWith [] (p # ps) = False"
| "startsWith (c # cs) (p # ps) = (c = p \<and> startsWith cs ps)"

definition isLineTerminator :: "jschar \<Rightarrow> bool" where
  "isLineTerminator c = (c = 0x0A \<or> c = 0x0D \<or> c = 0x2028 \<or> c = 0x2029)"

definition isWhiteSpace :: "jschar \<Rightarrow> bool" where
  "isWhiteSpace c =
     (c = 0x09 \<or> c = 0x0B \<or> c = 0x0C \<or> c = 0x20 \<or> c = 0xA0 \<or> c = 0x1680 \<or>
      (0x2000 \<le> c \<and> c \<le> 0x200A) \<or> c = 0x202F \<or> c = 0x205F \<or> c = 0x3000 \<or> c = 0xFEFF)"

text \<open>\<open>String.prototype.trim\<close> removes white space and line terminators at both ends.\<close>

definition trim :: "jsstring \<Rightarrow> jsstring" where
  "trim s =
     rev (dropWhile (\<lambda>c. isWhiteSpace c \<or> isLineTerminator c)
       (rev (dropWhile (\<lambda>c. isWhiteSpace c \<or> isLineTerminator c) s)))"

text \<open>The decimal digits of a number, as a template literal prints a status code.\<close>

fun decimal :: "nat \<Rightarrow> string" where
  "decimal n =
     (if n < 10 then [char_of (48 + n)]
      else decimal (n div 10) @ [char_of (48 + n mod 10)])"

declare decimal.simps [simp del]

section \<open>Data model (lib/api)\<close>

datatype sender = Human | Ai | Tool

record ChatMessage =
  sender :: sender
  content :: jsstring
  timestamp :: "nat option"

datatype chunk_type = Content | Done | Error

text \<open>
  \<open>interface StreamChunk { type; content?; error? }\<close>: the tag and the two optional
  string fields, as the source has them (a content chunk may come without its content).
\<close>

record StreamChunk =
  chunk_type :: chunk_type
  chunk_content :: "jsstring option"
  chunk_error :: "jsstring option"

text \<open>The object literals \<open>{ type: "content", content: text }\<close> and \<open>{ type: "done" }\<close>.\<close>

definition content_chunk :: "jsstring \<Rightarrow> StreamChunk" where
  "content_chunk text = \<lparr>chunk_type = Content, chunk_content = Some text, chunk_error = None\<rparr>"

definition done_chunk :: StreamChunk where
  "done_chunk = \<lparr>chunk_type = Done, chunk_content = None, chunk_error = None\<rparr>"

text \<open>A thrown value: an \<open>Error\<close> object with its message, or some other value.\<close>

datatype thrown = ErrorObject jsstring | OtherThrown

section \<open>The text decoder\<close>

text \<open>
  \<open>new TextDecoder()\<close> is the platform's UTF-8 decoder, and
  \<open>decoder.decode(value, { stream: true })\<close> feeds it one more array of bytes. The model
  is the decoder of the Encoding Standard: a byte either completes a code point, is
  kept as part of an unfinished sequence, or is malformed and yields U+FFFD (a byte
  that cannot continue a sequence ends it with U+FFFD and is then read again as the
  start of the next one). The state survives between calls, so a sequence cut by a
  chunk boundary is finished by the next chunk. The first code point of the stream is
  dropped when it is the byte order mark. Code points leave as UTF-16 code units.
\<close>

record utf8_decoder =
  code_point :: nat
  bytes_seen :: nat
  bytes_needed :: nat
  lower_boundary :: nat
  upper_boundary :: nat
  bom_seen :: bool

definition new_TextDecoder :: utf8_decoder where
  "new_TextDecoder =
     \<lparr>code_point = 0, bytes_seen = 0, bytes_needed = 0,
      lower_boundary = 0x80, upper_boundary = 0xBF, bom_seen = False\<rparr>"

definition utf16 :: "nat \<Rightarrow> jsstring" where
  "utf16 cp =
     (if cp < 0x10000 then [of_nat cp]
      else [of_nat (0xD800 + (cp - 0x10000) div 0x400),
            of_nat (0xDC00 + (cp - 0x10000) mod 0x400)])"

definition emit :: "nat \<Rightarrow> utf8_decoder \<Rightarrow> jsstring \<times> utf8_decoder" where
  "emit cp d =
     (if bom_seen d then (utf16 cp, d)
      else (if cp = 0xFEFF then [] else utf16 cp, d\<lparr>bom_seen := True\<rparr>))"

text \<open>A byte read while no sequence is open; \<open>b mod 0x20\<close> is \<open>b & 0x1F\<close>, and so on.\<close>

definition utf8_lead :: "nat \<Rightarrow> utf8_decoder \<Rightarrow> jsstring \<times> utf8_decoder" where
  "utf8_lead b d =
     (if b \<le> 0x7F then emit b d
      else if 0xC2 \<le> b \<and> b \<le> 0xDF then
        ([], d\<lparr>bytes_needed := 1, code_point := b mod 0x20\<rparr>)
      else if 0xE0 \<le> b \<and> b \<le> 0xEF then
        ([], d\<lparr>lower_boundary := (if b = 0xE0 then 0xA0 else lower_boundary d),
                upper_boundary := (if b = 0xED then 0x9F else upper_boundary d),
                bytes_needed := 2, code_point := b mod 0x10\<rparr>)
      else if 0xF0 \<le> b \<and> b \<le> 0xF4 then
        ([], d\<lparr>lower_boundary := (if b = 0xF0 then 0x90 else lower_boundary d),
                upper_boundary := (if b = 0xF4 then 0x8F else upper_boundary d),
                bytes_needed := 3, code_point := b mod 0x08\<rparr>)
      else emit 0xFFFD d)"

text \<open>Any byte; \<open>code_point d * 0x40 + b mod 0x40\<close> is \<open>(code_point << 6) | (b & 0x3F)\<close>.\<close>

definition utf8_byte :: "nat \<Rightarrow> utf8_decoder \<Rightarrow> jsstring \<times> utf8_decoder" where
  "utf8_byte b d =
     (if bytes_needed d = 0 then utf8_lead b d
      else if b < lower_boundary d \<or> upper_boundary d < b then
        (let d0 = d\<lparr>code_point := 0, bytes_needed := 0, bytes_seen := 0,
                     lower_boundary := 0x80, upper_boundary := 0xBF\<rparr>;
             (r, d1) = emit 0xFFFD d0;
             (s, d2) = utf8_lead b d1
         in (r @ s, d2))
      else
        (let d1 = d\<lparr>lower_boundary := 0x80, upper_boundary := 0xBF,
                     code_point := code_point d * 0x40 + b mod 0x40,
                     bytes_seen := bytes_seen d + 1\<rparr>
         in if bytes_seen d1 \<noteq> bytes_needed d1 then ([], d1)
            else emit (code_point d1)
                   (d1\<lparr>code_point := 0, bytes_needed := 0, bytes_seen := 0\<rparr>)))"

fun decode :: "byte list \<Rightarrow> utf8_decoder \<Rightarrow> jsstring \<times> utf8_decoder" where
  "decode [] d = ([], d)"
| "decode (b # bs) d =
     (let (r, d1) = utf8_byte (unat b) d;
          (s, d2) = decode bs d1
      in (r @ s, d2))"

text \<open>The text of a whole byte stream, decoded in one piece by a fresh decoder.\<close>

definition decodedText :: "byte list \<Rightarrow> jsstring" where
  "decodedText bytes = fst (decode bytes new_TextDecoder)"

text \<open>What holds of the decoder between two bytes.\<close>

definition dec_ok :: "utf8_decoder \<Rightarrow> bool" where
  "dec_ok d =
     (if bytes_needed d = 0
      then bytes_seen d = 0 \<and> lower_boundary d = 0x80 \<and> upper_boundary d = 0xBF
      else bytes_seen d < bytes_needed d \<and> bytes_needed d \<le> 3 \<and>
           0x80 \<le> lower_boundary d \<and> upper_boundary d \<le> 0xBF \<and>
           (1 \<le> code_point d \<or> 0x90 \<le> lower_boundary d) \<and>
           (bytes_needed d - bytes_seen d = 1 \<longrightarrow> code_point d < 32768) \<and>
           (bytes_needed d - bytes_seen d = 2 \<longrightarrow> code_point d < 512) \<and>
           (bytes_needed d - bytes_seen d = 3 \<longrightarrow> code_point d < 8))"

section \<open>The read loop of chatAPI.sendMessageStream: lines\<close>

text \<open>\<open>buffer.split("\n")\<close>: the pieces between the newlines, at least one piece.\<close>

fun split_nl :: "jsstring \<Rightarrow> jsstring list" where
  "split_nl [] = [[]]"
| "split_nl (c # cs) =
     (if c = 0x0A then [] # split_nl cs
      else (c # hd (split_nl cs)) # tl (split_nl cs))"

text \<open>
  One pass of the loop body after a read that brought \<open>text\<close>: the new buffer is
  \<open>lines.pop() || ""\<close>, and the lines left in \<open>lines\<close> are the ones the \<open>for\<close> loop
  visits.
\<close>

definition readStep :: "jsstring \<Rightarrow> jsstring \<Rightarrow> jsstring list \<times> jsstring" where
  "readStep buffer text =
     (let lines = split_nl (buffer @ text);
          popped = last lines
      in (butlast lines, if popped = [] then [] else popped))"

text \<open>
  The line records of a whole stream: the lines that the \<open>for\<close> loop visits, over all
  reads until \<open>done\<close>. At \<open>done\<close> the loop breaks and the buffer is dropped.
\<close>

fun frameLines :: "byte list list \<Rightarrow> utf8_decoder \<Rightarrow> jsstring \<Rightarrow> jsstring list" where
  "frameLines [] d buffer = []"
| "frameLines (v # rest) d buffer =
     (let (text, d1) = decode v d;
          (lines, buffer1) = readStep buffer text
      in lines @ frameLines rest d1 buffer1)"

section \<open>The read loop of chatAPI.sendMessageStream: events\<close>

text \<open>
  \<open>JSON.parse\<close> is a parameter \<open>parse\<close>. Its result is the payload object, as the
  list of its fields with their values; the values are strings, the type that
  \<open>StreamChunk\<close> gives the fields they are copied to. \<open>None\<close> is a payload on which the
  \<open>try\<close> block throws (text that is not JSON, or \<open>null\<close>). A field that is missing
  reads as \<open>undefined\<close>.
\<close>

type_synonym payload = "(jsstring \<times> jsstring) list"

definition interpretEvent :: "payload \<Rightarrow> StreamChunk option" where
  "interpretEvent data =
     (let ty = map_of data (js ''type'') in
      if ty = Some (js ''content'') then
        Some \<lparr>chunk_type = Content, chunk_content = map_of data (js ''content''),
              chunk_error = None\<rparr>
      else if ty = Some (js ''tool_call'') then
        Some \<lparr>chunk_type = Content,
              chunk_content =
                Some ([0x0A] @ js ''[Using tool: '' @ templateString (map_of data (js ''tool''))
                        @ js '']'' @ [0x0A]),
              chunk_error = None\<rparr>
      else if ty = Some (js ''tool_result'') then
        Some \<lparr>chunk_type = Content,
              chunk_content =
                Some ([0x0A] @ templateString (map_of data (js ''content'')) @ [0x0A]),
              chunk_error = None\<rparr>
      else if ty = Some (js ''end'') then
        Some \<lparr>chunk_type = Done, chunk_content = None, chunk_error = None\<rparr>
      else if ty = Some (js ''error'') then
        Some \<lparr>chunk_type = Error, chunk_content = None,
              chunk_error = map_of data (js ''message'')\<rparr>
      else None)"

text \<open>
  What the API does for one line: a call of \<open>onChunk\<close>, the \<open>console.error\<close> of the
  \<open>catch\<close> block (recorded with the trimmed line), or nothing. The \<open>console.log\<close> at
  the start of the API call is not part of the model.
\<close>

datatype api_event = OnChunk StreamChunk | ParseFailure jsstring

definition processLine :: "(jsstring \<Rightarrow> payload option) \<Rightarrow> jsstring \<Rightarrow> api_event list" where
  "processLine parse line =
     (let trimmed = trim line in
      if startsWith trimmed (js ''data: '') then
        (case parse (drop 6 trimmed) of
           None \<Rightarrow> [ParseFailure trimmed]
         | Some data \<Rightarrow> (case interpretEvent data of Some chunk \<Rightarrow> [OnChunk chunk] | None \<Rightarrow> []))
      else [])"

text \<open>
  The body stream is the list of the arrays that \<open>reader.read()\<close> returns with
  \<open>done = false\<close>, and its end: \<open>done = true\<close>, or a rejected read. The loop returns the
  events in order, and the value it throws, if it throws.
\<close>

datatype stream_end = Closed | ReadRejected thrown

fun readLoop ::
  "(jsstring \<Rightarrow> payload option) \<Rightarrow> byte list list \<Rightarrow> stream_end \<Rightarrow> utf8_decoder \<Rightarrow> jsstring
     \<Rightarrow> api_event list \<times> thrown option" where
  "readLoop parse [] e d buffer =
     (case e of
        Closed \<Rightarrow> ([OnChunk \<lparr>chunk_type = Done, chunk_content = None, chunk_error = None\<rparr>], None)
      | ReadRejected err \<Rightarrow> ([], Some err))"
| "readLoop parse (v # rest) e d buffer =
     (let (text, d1) = decode v d;
          (lines, buffer1) = readStep buffer text;
          (evs, r) = readLoop parse rest e d1 buffer1
      in (concat (map (processLine parse) lines) @ evs, r))"

datatype response_body = NoBody | Body "byte list list" stream_end

datatype fetch_result = FetchRejected thrown | Response nat response_body

definition api_sendMessageStream ::
  "(jsstring \<Rightarrow> payload option) \<Rightarrow> fetch_result \<Rightarrow> api_event list \<times> thrown option" where
  "api_sendMessageStream parse net =
     (case net of
        FetchRejected err \<Rightarrow> ([], Some err)
      | Response status body \<Rightarrow>
          if \<not> (200 \<le> status \<and> status \<le> 299) then
            ([], Some (ErrorObject (js ''API Error '' @ js (decimal status))))
          else
            (case body of
               NoBody \<Rightarrow> ([], Some (ErrorObject (js ''No response body'')))
             | Body reads e \<Rightarrow> readLoop parse reads e new_TextDecoder []))"

section \<open>The tool-result pattern\<close>

text \<open>
  \<open>/\{'path':.*?\}/g\<close>: the literal \<open>{'path':\<close>, then as few characters as possible,
  none of them a line terminator, then \<open>}\<close>. The pattern object is created afresh in
  each call of the updater, so \<open>test\<close> searches from index 0; \<open>match\<close> with a global
  pattern searches from index 0 again and lists the matches from the left, so its
  element 0 is the leftmost match.
\<close>

text \<open>\<open>.*?\}\<close> at the head of the input: the text up to the first \<open>}\<close>, unless a line
  terminator or the end of the input comes first.\<close>

fun lazyDotsThenBrace :: "jsstring \<Rightarrow> jsstring option" where
  "lazyDotsThenBrace [] = None"
| "lazyDotsThenBrace (c # cs) =
     (if c = 0x7D then Some [c]
      else if isLineTerminator c then None
      else map_option ((#) c) (lazyDotsThenBrace cs))"

definition toolResultPattern_at :: "jsstring \<Rightarrow> jsstring option" where
  "toolResultPattern_at s =
     (if startsWith s (js ''{'path':'')
      then map_option ((@) (js ''{'path':'')) (lazyDotsThenBrace (drop 8 s))
      else None)"

text \<open>The leftmost match: the pattern is tried at every index in turn.\<close>

fun toolResultPattern_exec :: "jsstring \<Rightarrow> jsstring option" where
  "toolResultPattern_exec [] = None"
| "toolResultPattern_exec (c # cs) =
     (case toolResultPattern_at (c # cs) of
        Some m \<Rightarrow> Some m
      | None \<Rightarrow> toolResultPattern_exec cs)"

definition toolResultPattern_test :: "jsstring \<Rightarrow> bool" where
  "toolResultPattern_test s = (toolResultPattern_exec s \<noteq> None)"

section \<open>The chat hook (useChat)\<close>

text \<open>
  A stream tracker is an object shared between the callback of its stream and
  \<open>activeStreamRef\<close>: the trackers live in a store from addresses to objects, and
  \<open>activeStreamRef.current\<close> holds an address or null. \<open>nextTracker\<close> is the address of
  the next tracker to be created. \<open>console\<close> is what the hook has written to the
  console. In \<open>onChunk\<close> and in the \<open>catch\<close> and \<open>finally\<close> blocks, which run without
  an \<open>await\<close>, the calls of the state setters are applied in their order: the result
  is the state that the next render shows.
\<close>

record tracker =
  sessionId :: jsstring
  aborted :: bool

datatype console_entry = ConsoleLog jsstring | ConsoleError jsstring

record useChat =
  currentSessionId :: "jsstring option"
  messages :: "ChatMessage list"
  isLoading :: bool
  error :: "jsstring option"
  trackers :: "nat \<Rightarrow> tracker"
  nextTracker :: nat
  activeStreamRef :: "nat option"
  console :: "console_entry list"

text \<open>
  The updater that \<open>onChunk\<close> gives to \<open>setMessages\<close> for a content chunk with the
  text \<open>text\<close>; \<open>now1\<close> and \<open>now2\<close> are the two readings of \<open>Date.now()\<close>.
\<close>

definition contentUpdater :: "nat \<Rightarrow> nat \<Rightarrow> jsstring \<Rightarrow> ChatMessage list \<Rightarrow> ChatMessage list" where
  "contentUpdater now1 now2 text prev =
     (case prev of
        [] \<Rightarrow> prev
      | _ # _ \<Rightarrow>
          (let lastMsg = last prev in
           if sender lastMsg = Ai then
             (if toolResultPattern_test text then
                (let toolContent =
                       (case toolResultPattern_exec text of
                          Some m \<Rightarrow> if m = [] then text else m
                        | None \<Rightarrow> text)
                 in prev @ [\<lparr>sender = Tool, content = toolContent, timestamp = Some now1\<rparr>,
                            \<lparr>sender = Ai, content = [], timestamp = Some now2\<rparr>])
              else prev[length prev - 1 := lastMsg\<lparr>content := content lastMsg @ text\<rparr>])
           else prev))"

text \<open>
  The callback that \<open>sendMessageStream\<close> passes to the API; \<open>streamTracker\<close> is the
  address of the tracker that the callback has captured.
\<close>

definition onChunk :: "nat \<Rightarrow> nat \<Rightarrow> nat \<Rightarrow> StreamChunk \<Rightarrow> useChat \<Rightarrow> useChat" where
  "onChunk streamTracker now1 now2 chunk st =
     (if aborted (trackers st streamTracker) then
        st\<lparr>console := console st @ [ConsoleLog (js ''[useChat] Stream aborted - session changed'')]\<rparr>
      else if chunk_type chunk = Content \<and> truthy (chunk_content chunk) then
        (case chunk_content chunk of
           Some text \<Rightarrow> st\<lparr>messages := contentUpdater now1 now2 text (messages st)\<rparr>
         | None \<Rightarrow> st)
      else if chunk_type chunk = Done then
        (if \<not> aborted (trackers st streamTracker) then
           (let st1 = st\<lparr>isLoading := False\<rparr> in
            if activeStreamRef st1 = Some streamTracker
            then st1\<lparr>activeStreamRef := None\<rparr> else st1)
         else st)
      else if chunk_type chunk = Error then
        (if \<not> aborted (trackers st streamTracker) then
           st\<lparr>error := Some (case chunk_error chunk of
                                Some e \<Rightarrow> if e = [] then js ''Stream error occurred'' else e
                              | None \<Rightarrow> js ''Stream error occurred''),
              isLoading := False\<rparr>
         else st)
      else st)"

text \<open>
  The API calling the callback of one stream on a list of chunks in order, each call
  with its two readings of the clock, and no other step of the hook in between.
\<close>

fun deliver :: "nat \<Rightarrow> (nat \<times> nat \<times> StreamChunk) list \<Rightarrow> useChat \<Rightarrow> useChat" where
  "deliver streamTracker [] st = st"
| "deliver streamTracker ((now1, now2, chunk) # rest) st =
     deliver streamTracker rest (onChunk streamTracker now1 now2 chunk st)"

text \<open>
  When React shows a state. A call of a state setter (\<open>setMessages\<close>, \<open>setError\<close>,
  \<open>setIsLoading\<close>, \<open>setCurrentSessionId\<close>) does not change what is on the screen: it
  puts an update into a queue. React renders only when the JavaScript that is running
  has come to an \<open>await\<close> or to its end; the render applies the queued updates in
  the order of the calls, each updater function receiving the result of the one
  before, and shows the result. An assignment to a ref or to a field of an object,
  and a write to the console, take place at once. So a function is a list of
  statements of these three kinds, and the states that a render can show while the
  list runs are the states at its \<open>await\<close>s.
\<close>

datatype stmt = SetState "useChat \<Rightarrow> useChat" | Mutate "useChat \<Rightarrow> useChat" | Await

record react =
  rendered :: useChat
  queue :: "(useChat \<Rightarrow> useChat) list"

definition render :: "react \<Rightarrow> react" where
  "render r = \<lparr>rendered = fold (\<lambda>f s. f s) (queue r) (rendered r), queue = []\<rparr>"

text \<open>The state of React after the statements, and the states shown at their \<open>await\<close>s.\<close>

fun execute :: "stmt list \<Rightarrow> react \<Rightarrow> react \<times> useChat list" where
  "execute [] r = (r, [])"
| "execute (SetState f # rest) r = execute rest (r\<lparr>queue := queue r @ [f]\<rparr>)"
| "execute (Mutate g # rest) r = execute rest (r\<lparr>rendered := g (rendered r)\<rparr>)"
| "execute (Await # rest) r =
     (let r1 = render r;
          (r2, shown) = execute rest r1
      in (r2, rendered r1 # shown))"

text \<open>
  \<open>sendMessageStream\<close> from its call up to its first \<open>await\<close>, the call of the API.
  \<open>capturedSessionId\<close> is the value of \<open>currentSessionId\<close> that the closure of
  \<open>useCallback\<close> has captured, which may be older than the one of the state; \<open>sessionIdArg\<close> is the optional
  argument. The function throws before its first statement when there is no target
  session. Otherwise its statements are, in the order of the source: the previous
  tracker is marked as aborted; the new tracker is created, at the address
  \<open>streamTracker\<close>, and becomes the active one; the five calls of state setters; the
  \<open>await\<close>.
\<close>

definition abortActive :: "useChat \<Rightarrow> useChat" where
  "abortActive st =
     (case activeStreamRef st of
        Some a \<Rightarrow> st\<lparr>trackers := (trackers st)(a := (trackers st a)\<lparr>aborted := True\<rparr>)\<rparr>
      | None \<Rightarrow> st)"

definition targetSessionId :: "jsstring option \<Rightarrow> jsstring option \<Rightarrow> jsstring option" where
  "targetSessionId sessionIdArg capturedSessionId =
     (if truthy sessionIdArg then sessionIdArg else capturedSessionId)"

definition sendMessageStream_stmts ::
  "jsstring option \<Rightarrow> jsstring \<Rightarrow> jsstring option \<Rightarrow> nat \<Rightarrow> nat \<Rightarrow> nat \<Rightarrow> jsstring \<Rightarrow> stmt list" where
  "sendMessageStream_stmts capturedSessionId userInput sessionIdArg now1 now2 streamTracker target =
     [Mutate abortActive,
      Mutate (\<lambda>st. st\<lparr>trackers := (trackers st)
                                      (streamTracker := \<lparr>sessionId = target, aborted = False\<rparr>),
                       nextTracker := Suc streamTracker,
                       activeStreamRef := Some streamTracker\<rparr>),
      SetState (\<lambda>st. st\<lparr>error := None\<rparr>),
      SetState (\<lambda>st. st\<lparr>isLoading := True\<rparr>)]
     @ (if truthy sessionIdArg \<and> sessionIdArg \<noteq> capturedSessionId
        then [SetState (\<lambda>st. st\<lparr>currentSessionId := sessionIdArg\<rparr>)] else [])
     @ [SetState (\<lambda>prev. prev\<lparr>messages := messages prev @
                    [\<lparr>sender = Human, content = userInput, timestamp = Some now1\<rparr>]\<rparr>),
        SetState (\<lambda>prev. prev\<lparr>messages := messages prev @
                    [\<lparr>sender = Ai, content = [], timestamp = Some now2\<rparr>]\<rparr>),
        Await]"

text \<open>
  The value thrown, or the address of the new tracker and the state at the \<open>await\<close>.
\<close>

definition sendMessageStream_begin ::
  "jsstring option \<Rightarrow> jsstring \<Rightarrow> jsstring option \<Rightarrow> nat \<Rightarrow> nat \<Rightarrow> useChat
     \<Rightarrow> thrown + (nat \<times> useChat)" where
  "sendMessageStream_begin capturedSessionId userInput sessionIdArg now1 now2 st =
     (case targetSessionId sessionIdArg capturedSessionId of
        None \<Rightarrow> Inl (ErrorObject (js ''No active session''))
      | Some target \<Rightarrow>
          if target = [] then Inl (ErrorObject (js ''No active session''))
          else
            (let streamTracker = nextTracker st in
             Inr (streamTracker,
                  rendered (fst (execute
                    (sendMessageStream_stmts capturedSessionId userInput sessionIdArg now1 now2
                       streamTracker target)
                    \<lparr>rendered = st, queue = []\<rparr>)))))"

text \<open>
  The states that a render can show from the call of \<open>sendMessageStream\<close> up to its
  first \<open>await\<close>, after the state \<open>st\<close> in which it is called.
\<close>

definition sendMessageStream_renders ::
  "jsstring option \<Rightarrow> jsstring \<Rightarrow> jsstring option \<Rightarrow> nat \<Rightarrow> nat \<Rightarrow> useChat \<Rightarrow> useChat list" where
  "sendMessageStream_renders capturedSessionId userInput sessionIdArg now1 now2 st =
     (case targetSessionId sessionIdArg capturedSessionId of
        None \<Rightarrow> []
      | Some target \<Rightarrow>
          if target = [] then []
          else snd (execute
                 (sendMessageStream_stmts capturedSessionId userInput sessionIdArg now1 now2
                    (nextTracker st) target)
                 \<lparr>rendered = st, queue = []\<rparr>))"

text \<open>\<open>prev.slice(0, -2)\<close>: all but the last two elements; nothing when there are fewer.\<close>

definition slice_0_minus2 :: "'a list \<Rightarrow> 'a list" where
  "slice_0_minus2 prev = take (length prev - 2) prev"

text \<open>
  The \<open>finally\<close> block, which ends a call that returned, and the \<open>catch\<close> block
  followed by the \<open>finally\<close> block, for the value \<open>err\<close> that the API call threw (the
  function then throws \<open>err\<close> again).
\<close>

definition sendMessageStream_finally :: "nat \<Rightarrow> useChat \<Rightarrow> useChat" where
  "sendMessageStream_finally streamTracker st =
     (if \<not> aborted (trackers st streamTracker) then st\<lparr>isLoading := False\<rparr> else st)"

definition sendMessageStream_catch :: "nat \<Rightarrow> thrown \<Rightarrow> useChat \<Rightarrow> useChat" where
  "sendMessageStream_catch streamTracker err st =
     sendMessageStream_finally streamTracker
       (if \<not> aborted (trackers st streamTracker) then
          (let errorMessage = (case err of ErrorObject m \<Rightarrow> m
                                         | OtherThrown \<Rightarrow> js ''Failed to send message'')
           in st\<lparr>error := Some errorMessage,
                 console := console st @ [ConsoleError errorMessage],
                 messages := slice_0_minus2 (messages st)\<rparr>)
        else st)"

section \<open>Notions of the specification\<close>

text \<open>
  A step of the hook reports an error when it sets the error state or writes to the
  console; the hook has no other channel.
\<close>

definition reportsError :: "useChat \<Rightarrow> useChat \<Rightarrow> bool" where
  "reportsError st st' = (error st' \<noteq> error st \<or> console st' \<noteq> console st)"

section \<open>Example inputs\<close>

definition idle_state :: useChat where
  "idle_state =
     \<lparr>currentSessionId = Some (js ''s1''), messages = [], isLoading = False, error = None,
      trackers = (\<lambda>_. \<lparr>sessionId = [], aborted = False\<rparr>),
      nextTracker = 0, activeStreamRef = None, console = []\<rparr>"

text \<open>The state of \<open>idle_state\<close> after the user has sent \<open>run report\<close>.\<close>

definition started_state :: useChat where
  "started_state =
     \<lparr>currentSessionId = Some (js ''s1''),
      messages = [\<lparr>sender = Human, content = js ''run report'', timestamp = Some 11\<rparr>,
                  \<lparr>sender = Ai, content = [], timestamp = Some 12\<rparr>],
      isLoading = True, error = None,
      trackers = (\<lambda>_. \<lparr>sessionId = [], aborted = False\<rparr>)
                   (0 := \<lparr>sessionId = js ''s1'', aborted = False\<rparr>),
      nextTracker = 1, activeStreamRef = Some 0, console = []\<rparr>"

text \<open>The same turn after a second \<open>sendMessageStream\<close>: tracker 0 is stale.\<close>

definition stale_state :: useChat where
  "stale_state =
     \<lparr>currentSessionId = Some (js ''s1''),
      messages = [\<lparr>sender = Human, content = js ''run report'', timestamp = Some 11\<rparr>,
                  \<lparr>sender = Ai, content = [], timestamp = Some 12\<rparr>,
                  \<lparr>sender = Human, content = js ''again'', timestamp = Some 3\<rparr>,
                  \<lparr>sender = Ai, content = [], timestamp = Some 4\<rparr>],
      isLoading = True, error = None,
      trackers = (\<lambda>_. \<lparr>sessionId = [], aborted = False\<rparr>)
                   (0 := \<lparr>sessionId = js ''s1'', aborted = True\<rparr>,
                    1 := \<lparr>sessionId = js ''s1'', aborted = False\<rparr>),
      nextTracker = 2, activeStreamRef = Some 1, console = []\<rparr>"

text \<open>A live stream whose transcript ends with a human message.\<close>

definition orphan_state :: useChat where
  "orphan_state =
     \<lparr>currentSessionId = Some (js ''s1''),
      messages = [\<lparr>sender = Human, content = js ''hello'', timestamp = Some 11\<rparr>],
      isLoading = True, error = None,
      trackers = (\<lambda>_. \<lparr>sessionId = js ''s1'', aborted = False\<rparr>),
      nextTracker = 1, activeStreamRef = Some 0, console = []\<rparr>"

definition tool_payload :: jsstring where
  "tool_payload = js ''{'path': '/tmp/out.csv', 'message': 'done'}''"

text \<open>A line of the wire protocol, and \<open>JSON.parse\<close> on the payload of that line.\<close>

definition tool_call_json :: jsstring where
  \<open>tool_call_json = js ''{"type":"tool_call","tool":"search"}''\<close>

definition tool_call_line :: jsstring where
  "tool_call_line = js ''data: '' @ tool_call_json"

definition example_parse :: "jsstring \<Rightarrow> payload option" where
  "example_parse s =
     (if s = tool_call_json
      then Some [(js ''type'', js ''tool_call''), (js ''tool'', js ''search'')]
      else None)"

section \<open>The decoder keeps the newlines\<close>

lemma word16_ne_10: "n < 65536 \<Longrightarrow> n \<noteq> 10 \<Longrightarrow> (of_nat n :: 16 word) \<noteq> 0x0A"
proof
  assume a: "n < 65536" "n \<noteq> 10" and e: "(of_nat n :: 16 word) = 0x0A"
  have "unat (of_nat n :: 16 word) = n" using a(1) by (simp add: unat_of_nat)
  with e a(2) show False by simp
qed

lemma utf16_no_newline: "11 \<le> cp \<Longrightarrow> cp < 2097152 \<Longrightarrow> count_list (utf16 cp) 0x0A = 0"
proof -
  assume a: "11 \<le> cp" "cp < 2097152"
  show ?thesis
  proof (cases "cp < 0x10000")
    case True
    with a show ?thesis using word16_ne_10 [of cp] by (simp add: utf16_def)
  next
    case False
    have h: "0xD800 + (cp - 0x10000) div 0x400 < 65536" using a by simp
    have l: "0xDC00 + (cp - 0x10000) mod 0x400 < 65536" by simp
    show ?thesis using False word16_ne_10 [OF h] word16_ne_10 [OF l]
      by (simp add: utf16_def)
  qed
qed

lemma emit_newline:
  "emit cp d = (r, d') \<Longrightarrow> cp < 2097152 \<Longrightarrow> cp = 10 \<or> 11 \<le> cp \<Longrightarrow>
   count_list r 0x0A = (if cp = 10 then 1 else 0)"
proof -
  assume a: "emit cp d = (r, d')" "cp < 2097152" "cp = 10 \<or> 11 \<le> cp"
  have r: "r = [] \<or> r = utf16 cp" "cp = 10 \<longrightarrow> r = utf16 cp"
    using a(1) by (auto simp: emit_def split: if_splits)
  show ?thesis
  proof (cases "cp = 10")
    case True
    with r show ?thesis by (simp add: utf16_def)
  next
    case False
    with a have "count_list (utf16 cp) 0x0A = 0" by (simp add: utf16_no_newline)
    with r False show ?thesis by auto
  qed
qed

lemma emit_state: "emit cp d = (r, d') \<Longrightarrow> d' = d\<lparr>bom_seen := True\<rparr>"
  by (auto simp: emit_def split: if_splits)

lemma emit_ascii_newline:
  "emit b d = (r, d') \<Longrightarrow> b \<le> 0x7F \<Longrightarrow> count_list r 0x0A = (if b = 10 then 1 else 0)"
proof -
  assume a: "emit b d = (r, d')" "b \<le> 0x7F"
  have "b \<noteq> 10 \<Longrightarrow> (of_nat b :: 16 word) \<noteq> 0x0A" using a(2) word16_ne_10 [of b] by simp
  then show ?thesis using a by (auto simp: emit_def utf16_def split: if_splits)
qed

lemma mod_window:
  fixes b :: nat
  assumes "q * k \<le> b" and "b < q * k + k"
  shows "b mod k = b - q * k"
proof -
  have "b = (b - q * k) + q * k" using assms(1) by simp
  then have "b mod k = ((b - q * k) + q * k) mod k" by simp
  also have "\<dots> = (b - q * k) mod k" by (rule mod_mult_self1)
  also have "\<dots> = b - q * k" using assms by simp
  finally show ?thesis .
qed

lemma utf8_lead_ascii:
  assumes "utf8_lead b d = (r, d')" and "bytes_needed d = 0" and "dec_ok d" and "b \<le> 0x7F"
  shows "count_list r 0x0A = (if b = 10 then 1 else 0) \<and> dec_ok d'"
proof -
  have e: "emit b d = (r, d')" using assms(1,4) by (simp add: utf8_lead_def)
  from emit_state [OF e] assms(2,3) have "dec_ok d'" by (simp add: dec_ok_def)
  with emit_ascii_newline [OF e assms(4)] show ?thesis by simp
qed

lemma utf8_lead_2:
  assumes "utf8_lead b d = (r, d')" and "bytes_needed d = 0" and "dec_ok d"
    and "0xC2 \<le> b" and "b \<le> 0xDF"
  shows "r = [] \<and> dec_ok d'"
proof -
  have m: "1 \<le> b mod 0x20" using assms(4,5) mod_window [of 6 "0x20" b] by simp
  have d': "d' = d\<lparr>bytes_needed := 1, code_point := b mod 0x20\<rparr>" and r: "r = []"
    using assms(1,4,5) by (simp_all add: utf8_lead_def)
  have "b mod 0x20 < 32768" by (rule less_trans [OF mod_less_divisor]) simp_all
  then show ?thesis using m assms(2,3) by (simp add: d' r dec_ok_def)
qed

lemma utf8_lead_3:
  assumes "utf8_lead b d = (r, d')" and "bytes_needed d = 0" and "dec_ok d"
    and "0xE0 \<le> b" and "b \<le> 0xEF"
  shows "r = [] \<and> dec_ok d'"
proof -
  have m: "b \<noteq> 0xE0 \<Longrightarrow> 1 \<le> b mod 0x10"
    using assms(4,5) mod_window [of 14 "0x10" b] by simp
  have d': "d' = d\<lparr>lower_boundary := (if b = 0xE0 then 0xA0 else lower_boundary d),
                    upper_boundary := (if b = 0xED then 0x9F else upper_boundary d),
                    bytes_needed := 2, code_point := b mod 0x10\<rparr>" and r: "r = []"
    using assms(1,4,5) by (simp_all add: utf8_lead_def)
  have "b mod 0x10 < 512" by (rule less_trans [OF mod_less_divisor]) simp_all
  then show ?thesis using m assms(2,3) by (simp add: d' r dec_ok_def)
qed

lemma utf8_lead_4:
  assumes "utf8_lead b d = (r, d')" and "bytes_needed d = 0" and "dec_ok d"
    and "0xF0 \<le> b" and "b \<le> 0xF4"
  shows "r = [] \<and> dec_ok d'"
proof -
  have m: "b \<noteq> 0xF0 \<Longrightarrow> 1 \<le> b mod 0x08"
    using assms(4,5) mod_window [of 30 "0x08" b] by simp
  have d': "d' = d\<lparr>lower_boundary := (if b = 0xF0 then 0x90 else lower_boundary d),
                    upper_boundary := (if b = 0xF4 then 0x8F else upper_boundary d),
                    bytes_needed := 3, code_point := b mod 0x08\<rparr>" and r: "r = []"
    using assms(1,4,5) by (simp_all add: utf8_lead_def)
  have "b mod 0x08 < 8" by simp
  then show ?thesis using m assms(2,3) by (simp add: d' r dec_ok_def)
qed

lemma utf8_lead_invalid:
  assumes "utf8_lead b d = (r, d')" and "bytes_needed d = 0" and "dec_ok d"
    and "0x7F < b" and "b < 0xC2 \<or> 0xF4 < b"
  shows "count_list r 0x0A = 0 \<and> dec_ok d'"
proof -
  have e: "emit 0xFFFD d = (r, d')" using assms(1,4,5) by (auto simp: utf8_lead_def)
  from emit_state [OF e] assms(2,3) have "dec_ok d'" by (simp add: dec_ok_def)
  moreover from emit_newline [OF e] have "count_list r 0x0A = 0" by simp
  ultimately show ?thesis by simp
qed

lemma utf8_lead_newline:
  assumes "utf8_lead b d = (r, d')" and "bytes_needed d = 0" and "dec_ok d"
  shows "count_list r 0x0A = (if b = 10 then 1 else 0) \<and> dec_ok d'"
proof -
  consider "b \<le> 0x7F" | "0xC2 \<le> b \<and> b \<le> 0xDF" | "0xE0 \<le> b \<and> b \<le> 0xEF"
    | "0xF0 \<le> b \<and> b \<le> 0xF4" | "0x7F < b \<and> (b < 0xC2 \<or> 0xF4 < b)"
    by linarith
  then show ?thesis
  proof cases
    case 1
    then show ?thesis using utf8_lead_ascii [OF assms] by simp
  next
    case 2
    then show ?thesis using utf8_lead_2 [OF assms] by simp
  next
    case 3
    then show ?thesis using utf8_lead_3 [OF assms] by simp
  next
    case 4
    then show ?thesis using utf8_lead_4 [OF assms] by simp
  next
    case 5
    then show ?thesis using utf8_lead_invalid [OF assms] by simp
  qed
qed

lemma utf8_byte_newline:
  assumes "utf8_byte b d = (r, d')" and "dec_ok d"
  shows "count_list r 0x0A = (if b = 10 then 1 else 0) \<and> dec_ok d'"
proof (cases "bytes_needed d = 0")
  case True
  then show ?thesis using assms utf8_lead_newline [of b d r d'] by (simp add: utf8_byte_def)
next
  case pending: False
  show ?thesis
  proof (cases "b < lower_boundary d \<or> upper_boundary d < b")
    case True
    define d0 where "d0 = d\<lparr>code_point := 0, bytes_needed := 0, bytes_seen := 0,
                     lower_boundary := 0x80, upper_boundary := 0xBF\<rparr>"
    obtain r1 d1 where e: "emit 0xFFFD d0 = (r1, d1)" by (cases "emit 0xFFFD d0")
    obtain r2 d2 where l: "utf8_lead b d1 = (r2, d2)" by (cases "utf8_lead b d1")
    have res: "r = r1 @ r2" "d' = d2"
      using assms(1) pending True e l by (simp_all add: utf8_byte_def d0_def)
    have d1: "d1 = d0\<lparr>bom_seen := True\<rparr>" using emit_state [OF e] .
    have ok1: "dec_ok d1" "bytes_needed d1 = 0" by (simp_all add: d1 d0_def dec_ok_def)
    have c1: "count_list r1 0x0A = 0" using emit_newline [OF e] by simp
    from utf8_lead_newline [OF l ok1(2) ok1(1)] c1 res show ?thesis by simp
  next
    case False
    define n where "n = bytes_needed d"
    define k where "k = bytes_seen d"
    define c where "c = code_point d"
    define m where "m = b mod 0x40"
    define d1 where "d1 = d\<lparr>lower_boundary := 0x80, upper_boundary := 0xBF,
                     code_point := c * 0x40 + m, bytes_seen := k + 1\<rparr>"
    have inv: "k < n" "n \<le> 3" "0x80 \<le> lower_boundary d" "upper_boundary d \<le> 0xBF"
      "1 \<le> c \<or> 0x90 \<le> lower_boundary d"
      "n - k = 1 \<longrightarrow> c < 32768" "n - k = 2 \<longrightarrow> c < 512" "n - k = 3 \<longrightarrow> c < 8"
      using assms(2) pending unfolding dec_ok_def n_def k_def c_def by simp_all
    have range: "0x80 \<le> b" "b \<le> 0xBF" using False inv(3,4) by simp_all
    have nb: "b \<noteq> 10" using range by simp
    have m: "m < 64" unfolding m_def by simp
    have m16: "0x90 \<le> b \<Longrightarrow> 16 \<le> m"
      unfolding m_def using range mod_window [of 2 "0x40" b] by simp
    have cp: "16 \<le> c * 0x40 + m"
    proof (cases "1 \<le> c")
      case True
      then show ?thesis by simp
    next
      case False
      with inv(5) have "0x90 \<le> lower_boundary d" by simp
      with \<open>\<not> (b < lower_boundary d \<or> upper_boundary d < b)\<close> have "0x90 \<le> b" by simp
      from m16 [OF this] show ?thesis by simp
    qed
    have step: "utf8_byte b d =
        (if k + 1 \<noteq> n then ([], d1)
         else emit (c * 0x40 + m) (d1\<lparr>code_point := 0, bytes_needed := 0, bytes_seen := 0\<rparr>))"
      using pending False
      by (simp add: utf8_byte_def d1_def Let_def n_def k_def c_def m_def)
    show ?thesis
    proof (cases "k + 1 \<noteq> n")
      case True
      then have res: "r = []" "d' = d1" using assms(1) step by simp_all
      have b1: "n - (k + 1) = 1 \<longrightarrow> c * 0x40 + m < 32768" using inv(7) m by arith
      have b2: "n - (k + 1) = 2 \<longrightarrow> c * 0x40 + m < 512" using inv(8) m by arith
      have b3: "n - (k + 1) \<noteq> 3" using inv(2) by arith
      have b4: "k + 1 < n" "1 \<le> c * 0x40 + m" using True inv(1) cp by arith+
      have f: "bytes_needed d1 = n" "bytes_seen d1 = k + 1" "code_point d1 = c * 0x40 + m"
        "lower_boundary d1 = 0x80" "upper_boundary d1 = 0xBF"
        by (simp_all add: d1_def n_def)
      have "n \<noteq> 0" using inv(1) by simp
      then have "dec_ok d1"
        unfolding dec_ok_def f using b1 b2 b3 b4 inv(2) by simp
      with res nb show ?thesis by simp
    next
      case complete: False
      then have e: "emit (c * 0x40 + m) (d1\<lparr>code_point := 0, bytes_needed := 0, bytes_seen := 0\<rparr>) = (r, d')"
        using assms(1) step by simp
      have "n - k = 1" using complete by arith
      with inv(6) m have hi: "c * 0x40 + m < 2097152" by arith
      have lo: "11 \<le> c * 0x40 + m" using cp by simp
      have "count_list r 0x0A = 0" using emit_newline [OF e hi] lo by simp
      moreover have "dec_ok d'" using emit_state [OF e] by (simp add: d1_def dec_ok_def)
      ultimately show ?thesis using nb by simp
    qed
  qed
qed

lemma decode_newlines:
  "decode bs d = (r, d') \<Longrightarrow> dec_ok d \<Longrightarrow> count_list r 0x0A = count_list bs 0x0A \<and> dec_ok d'"
proof (induction bs arbitrary: d r d')
  case Nil
  then show ?case by simp
next
  case (Cons b bs)
  obtain r1 d1 where s: "utf8_byte (unat b) d = (r1, d1)" by (cases "utf8_byte (unat b) d")
  obtain r2 d2 where t: "decode bs d1 = (r2, d2)" by (cases "decode bs d1")
  have res: "r = r1 @ r2" "d' = d2" using Cons.prems(1) s t by simp_all
  have b: "(unat b = 10) = (b = 0x0A)" by (simp add: word_unat_eq_iff)
  from utf8_byte_newline [OF s Cons.prems(2)]
  have 1: "count_list r1 0x0A = (if b = 0x0A then 1 else 0)" "dec_ok d1" by (simp_all add: b)
  from Cons.IH [OF t 1(2)] 1 res show ?case by simp
qed

lemma decode_append:
  "decode (xs @ ys) d =
     (let (r, d1) = decode xs d; (s, d2) = decode ys d1 in (r @ s, d2))"
  by (induction xs arbitrary: d) (simp_all add: split_beta Let_def)


section \<open>Splitting into lines\<close>

lemma split_nl_nonempty: "split_nl s \<noteq> []"
  by (cases s) simp_all

lemma split_nl_length: "length (split_nl s) = Suc (count_list s 0x0A)"
  by (induction s) (simp_all add: split_nl_nonempty)

lemma split_nl_append:
  "split_nl (xs @ ys) =
     butlast (split_nl xs) @ (last (split_nl xs) @ hd (split_nl ys)) # tl (split_nl ys)"
proof (induction xs)
  case Nil
  then show ?case by (simp add: split_nl_nonempty)
next
  case (Cons c cs)
  show ?case
  proof (cases "c = 0x0A")
    case True
    then show ?thesis using Cons by (simp add: split_nl_nonempty)
  next
    case False
    show ?thesis
    proof (cases "split_nl cs")
      case Nil
      then show ?thesis using split_nl_nonempty by blast
    next
      case (Cons l ls)
      then show ?thesis using False Cons.IH
        by (cases ls) (simp_all add: split_nl_nonempty)
    qed
  qed
qed

lemma split_nl_no_newline: "l \<in> set (split_nl s) \<Longrightarrow> 0x0A \<notin> set l"
proof (induction s arbitrary: l)
  case Nil
  then show ?case by simp
next
  case (Cons c cs)
  have "hd (split_nl cs) \<in> set (split_nl cs)" by (simp add: split_nl_nonempty)
  moreover have "set (tl (split_nl cs)) \<subseteq> set (split_nl cs)"
    by (cases "split_nl cs") auto
  ultimately show ?case using Cons by (auto split: if_splits)
qed

lemma split_nl_join:
  "concat (map (\<lambda>l. l @ [0x0A]) (butlast (split_nl s))) @ last (split_nl s) = s"
proof (induction s)
  case Nil
  then show ?case by simp
next
  case (Cons c cs)
  show ?case
  proof (cases "split_nl cs")
    case Nil
    then show ?thesis using split_nl_nonempty by blast
  next
    case (Cons l ls)
    then show ?thesis using Cons.IH by (cases ls) (auto simp: split_nl_nonempty)
  qed
qed

lemma split_nl_single: "0x0A \<notin> set s \<Longrightarrow> split_nl s = [s]"
  by (induction s) auto

lemma butlast_split_nl_append:
  "butlast (split_nl (xs @ ys)) = butlast (split_nl xs) @ butlast (split_nl (last (split_nl xs) @ ys))"
proof -
  have a: "split_nl (last (split_nl xs) @ ys) = (last (split_nl xs) @ hd (split_nl ys)) # tl (split_nl ys)"
  proof -
    have "0x0A \<notin> set (last (split_nl xs))"
      using split_nl_no_newline [of "last (split_nl xs)" xs] by (simp add: split_nl_nonempty)
    then have "split_nl (last (split_nl xs)) = [last (split_nl xs)]"
      by (rule split_nl_single)
    then show ?thesis by (simp add: split_nl_append [of "last (split_nl xs)" ys])
  qed
  show ?thesis
    by (simp add: split_nl_append [of xs ys] a butlast_append)
qed


lemma readStep_eq:
  "readStep buffer text = (butlast (split_nl (buffer @ text)), last (split_nl (buffer @ text)))"
  by (simp add: readStep_def Let_def)

lemma frameLines_eq:
  "0x0A \<notin> set buffer \<Longrightarrow>
   frameLines chunks d buffer = butlast (split_nl (buffer @ fst (decode (concat chunks) d)))"
proof (induction chunks arbitrary: d buffer)
  case Nil
  then show ?case by (simp add: split_nl_single)
next
  case (Cons v rest)
  obtain r1 d1 where v: "decode v d = (r1, d1)" by (cases "decode v d")
  obtain r2 d2 where r: "decode (concat rest) d1 = (r2, d2)" by (cases "decode (concat rest) d1")
  have all: "fst (decode (concat (v # rest)) d) = r1 @ r2"
    by (simp add: decode_append v r)
  have clean: "0x0A \<notin> set (last (split_nl (buffer @ r1)))"
    using split_nl_no_newline [of "last (split_nl (buffer @ r1))" "buffer @ r1"]
    by (simp add: split_nl_nonempty)
  have "frameLines (v # rest) d buffer =
          butlast (split_nl (buffer @ r1)) @ frameLines rest d1 (last (split_nl (buffer @ r1)))"
    by (simp add: v readStep_eq)
  also have "\<dots> = butlast (split_nl (buffer @ r1)) @
                     butlast (split_nl (last (split_nl (buffer @ r1)) @ r2))"
    using Cons.IH [OF clean, of d1] r by simp
  also have "\<dots> = butlast (split_nl ((buffer @ r1) @ r2))"
    by (rule butlast_split_nl_append [symmetric])
  finally have "frameLines (v # rest) d buffer = butlast (split_nl (buffer @ r1 @ r2))"
    by (simp only: append_assoc)
  then show ?case by (simp only: all)
qed

lemma new_TextDecoder_ok: "dec_ok new_TextDecoder"
  by (simp add: dec_ok_def new_TextDecoder_def)

lemma decodedText_newlines: "count_list (decodedText bytes) 0x0A = count_list bytes 0x0A"
  using decode_newlines [of bytes new_TextDecoder "fst (decode bytes new_TextDecoder)"
      "snd (decode bytes new_TextDecoder)"] new_TextDecoder_ok
  by (simp add: decodedText_def)

section \<open>Frame decoding\<close>

text \<open>
  C5. Let the concatenation of the byte chunks hold N newline bytes, that is, N complete
  terminated lines. The read loop visits exactly N line records, and the same records
  as for the bytes delivered in one chunk, however the bytes are cut into chunks. The
  records are the terminated lines of the decoded text: the text is the records, each
  followed by its newline, followed by a fragment without a newline, and that
  fragment, pending at the end of the input, is not among the records.
\<close>

theorem frame_decoder_fragmentation_invariant:
  "length (frameLines chunks new_TextDecoder []) = count_list (concat chunks) 0x0A \<and>
   frameLines chunks new_TextDecoder [] = frameLines [concat chunks] new_TextDecoder [] \<and>
   (\<exists>pending. 0x0A \<notin> set pending \<and>
      decodedText (concat chunks) =
        concat (map (\<lambda>l. l @ [0x0A]) (frameLines chunks new_TextDecoder [])) @ pending) \<and>
   (\<forall>l \<in> set (frameLines chunks new_TextDecoder []). 0x0A \<notin> set l)"
proof -
  have a: "frameLines cs new_TextDecoder [] = butlast (split_nl (decodedText (concat cs)))" for cs
    using frameLines_eq [of "[]" cs new_TextDecoder] by (simp add: decodedText_def)
  have n: "length (frameLines chunks new_TextDecoder []) = count_list (concat chunks) 0x0A"
    by (simp add: a split_nl_length decodedText_newlines)
  have f: "frameLines chunks new_TextDecoder [] = frameLines [concat chunks] new_TextDecoder []"
    using a [of chunks] a [of "[concat chunks]"] by simp
  have last_in: "last (split_nl (decodedText (concat chunks))) \<in> set (split_nl (decodedText (concat chunks)))"
    by (simp add: split_nl_nonempty)
  have p: "0x0A \<notin> set (last (split_nl (decodedText (concat chunks))))"
    using split_nl_no_newline [OF last_in] .
  have j: "decodedText (concat chunks) =
             concat (map (\<lambda>l. l @ [0x0A]) (frameLines chunks new_TextDecoder []))
               @ last (split_nl (decodedText (concat chunks)))"
    by (simp add: a split_nl_join)
  have c: "\<forall>l \<in> set (frameLines chunks new_TextDecoder []). 0x0A \<notin> set l"
  proof
    fix l assume "l \<in> set (frameLines chunks new_TextDecoder [])"
    then have "l \<in> set (split_nl (decodedText (concat chunks)))"
      unfolding a by (rule in_set_butlastD)
    then show "0x0A \<notin> set l" by (rule split_nl_no_newline)
  qed
  from p j have "\<exists>pending. 0x0A \<notin> set pending \<and>
      decodedText (concat chunks) =
        concat (map (\<lambda>l. l @ [0x0A]) (frameLines chunks new_TextDecoder [])) @ pending"
    by blast
  with n f c show ?thesis by blast
qed

lemma frameLines_example:
  "frameLines [[0x61, 0x0A, 0xE2, 0x82], [0xAC, 0x63, 0x0A, 0x64]] new_TextDecoder []
     = [[0x61], [0x20AC, 0x63]]"
  by (simp add: new_TextDecoder_def readStep_def utf8_byte_def utf8_lead_def emit_def utf16_def
      Let_def)

theorem frame_decoder_fragmentation_invariant_witness:
  "frameLines [[0x61, 0x0A, 0xE2, 0x82], [0xAC, 0x63, 0x0A, 0x64]] new_TextDecoder []
     = [[0x61], [0x20AC, 0x63]] \<and>
   count_list (concat [[0x61, 0x0A, 0xE2, 0x82], [0xAC, 0x63, 0x0A, 0x64 :: byte]]) 0x0A = 2 \<and>
   frameLines [concat [[0x61, 0x0A, 0xE2, 0x82], [0xAC, 0x63, 0x0A, 0x64]]] new_TextDecoder []
     = [[0x61], [0x20AC, 0x63]]"
  using frame_decoder_fragmentation_invariant
    [of "[[0x61, 0x0A, 0xE2, 0x82], [0xAC, 0x63, 0x0A, 0x64]]"] frameLines_example
  by (simp del: frameLines.simps)

section \<open>Event interpretation\<close>

lemma js_type_names:
  "js ''tool_call'' \<noteq> js ''content''" "js ''tool'' \<noteq> js ''type''"
  by (simp_all add: js_def)

lemma interpretEvent_tool_call:
  "map_of data (js ''type'') = Some (js ''tool_call'') \<Longrightarrow> map_of data (js ''tool'') = Some t \<Longrightarrow>
   interpretEvent data = Some (content_chunk ([0x0A] @ js ''[Using tool: '' @ t @ js '']'' @ [0x0A]))"
  by (simp add: interpretEvent_def Let_def js_type_names templateString_def content_chunk_def)

lemma tool_call_line_trim: "trim tool_call_line = tool_call_line"
  by (simp add: trim_def tool_call_line_def tool_call_json_def js_def isWhiteSpace_def
      isLineTerminator_def)

lemma tool_call_line_data:
  "startsWith tool_call_line (js ''data: '')" "drop 6 tool_call_line = tool_call_json"
  by (simp_all add: tool_call_line_def js_def)

text \<open>
  C2, as the code has it. For an event line whose payload has the type \<open>tool_call\<close>
  and the tool name \<open>t\<close>, the API calls back with exactly one chunk, a content chunk
  whose text is a newline, \<open>[Using tool: \<close>, \<open>t\<close>, \<open>]\<close> and a newline.
\<close>

theorem tool_call_chunk:
  assumes "startsWith (trim line) (js ''data: '')"
    and "parse (drop 6 (trim line)) = Some data"
    and "map_of data (js ''type'') = Some (js ''tool_call'')"
    and "map_of data (js ''tool'') = Some t"
  shows "processLine parse line =
           [OnChunk (content_chunk ([0x0A] @ js ''[Using tool: '' @ t @ js '']'' @ [0x0A]))]"
  using assms by (simp add: processLine_def Let_def interpretEvent_tool_call)

theorem tool_call_chunk_witness:
  "startsWith (trim tool_call_line) (js ''data: '') \<and>
   example_parse (drop 6 (trim tool_call_line))
     = Some [(js ''type'', js ''tool_call''), (js ''tool'', js ''search'')] \<and>
   processLine example_parse tool_call_line =
     [OnChunk (content_chunk ([0x0A] @ js ''[Using tool: '' @ js ''search'' @ js '']'' @ [0x0A]))]"
  using tool_call_chunk [of tool_call_line example_parse
      "[(js ''type'', js ''tool_call''), (js ''tool'', js ''search'')]" "js ''search''"]
  by (simp add: tool_call_line_trim tool_call_line_data example_parse_def js_type_names)

text \<open>
  C2, as the specification has it, fails: the text of the chunk is not
  \<open>[Using tool: search]\<close> for the tool \<open>search\<close>, since the code puts a newline at
  each end.
\<close>

theorem tool_call_chunk_counterexample:
  "startsWith (trim tool_call_line) (js ''data: '') \<and>
   example_parse (drop 6 (trim tool_call_line))
     = Some [(js ''type'', js ''tool_call''), (js ''tool'', js ''search'')] \<and>
   processLine example_parse tool_call_line
     \<noteq> [OnChunk (content_chunk (js ''[Using tool: '' @ js ''search'' @ js '']''))]"
proof -
  have a: "startsWith (trim tool_call_line) (js ''data: '')"
    by (simp add: tool_call_line_trim tool_call_line_data)
  have b: "example_parse (drop 6 (trim tool_call_line))
             = Some [(js ''type'', js ''tool_call''), (js ''tool'', js ''search'')]"
    by (simp add: tool_call_line_trim tool_call_line_data example_parse_def)
  have c: "processLine example_parse tool_call_line =
     [OnChunk (content_chunk ([0x0A] @ js ''[Using tool: '' @ js ''search'' @ js '']'' @ [0x0A]))]"
    using a b by (simp add: processLine_def Let_def interpretEvent_tool_call js_type_names)
  have d: "[0x0A] @ js ''[Using tool: '' @ js ''search'' @ js '']'' @ [0x0A]
             \<noteq> js ''[Using tool: '' @ js ''search'' @ js '']''"
    by (simp add: js_def)
  have "processLine example_parse tool_call_line
     \<noteq> [OnChunk (content_chunk (js ''[Using tool: '' @ js ''search'' @ js '']''))]"
    unfolding c using d by (simp add: content_chunk_def)
  with a b show ?thesis by blast
qed

section \<open>The end of the stream\<close>

lemma readLoop_closed:
  "readLoop parse reads Closed d buffer =
     (concat (map (processLine parse) (frameLines reads d buffer)) @ [OnChunk done_chunk], None)"
  by (induction reads arbitrary: d buffer) (simp_all add: split_beta done_chunk_def)

lemma onChunk_done:
  "\<not> aborted (trackers st h) \<Longrightarrow>
   onChunk h now1 now2 done_chunk st =
     st\<lparr>isLoading := False,
        activeStreamRef := (if activeStreamRef st = Some h then None else activeStreamRef st)\<rparr>"
  by (simp add: onChunk_def done_chunk_def Let_def)

text \<open>
  C6. When the connection closes, with or without an \<open>end\<close> event before, the API call
  returns without throwing, and the last thing it does is to call back with a done
  chunk. On a live stream that chunk ends the turn: the loading flag goes down, the
  error state, the transcript and the console stay as they are, and the \<open>finally\<close>
  block changes nothing more.
\<close>

theorem close_without_end_is_done:
  assumes "200 \<le> status" and "status \<le> 299"
  shows "api_sendMessageStream parse (Response status (Body reads Closed)) =
           (concat (map (processLine parse) (frameLines reads new_TextDecoder []))
              @ [OnChunk done_chunk], None) \<and>
         (\<not> aborted (trackers st h) \<longrightarrow>
            isLoading (onChunk h now1 now2 done_chunk st) = False \<and>
            error (onChunk h now1 now2 done_chunk st) = error st \<and>
            messages (onChunk h now1 now2 done_chunk st) = messages st \<and>
            console (onChunk h now1 now2 done_chunk st) = console st \<and>
            sendMessageStream_finally h (onChunk h now1 now2 done_chunk st)
              = onChunk h now1 now2 done_chunk st)"
  using assms
  by (simp add: api_sendMessageStream_def readLoop_closed onChunk_done sendMessageStream_finally_def)

lemma frameLines_no_event:
  "frameLines [[0x68, 0x69, 0x0A]] new_TextDecoder [] = [[0x68, 0x69]]"
  by (simp add: new_TextDecoder_def readStep_def utf8_byte_def utf8_lead_def emit_def utf16_def
      Let_def)

lemma processLine_no_event: "processLine example_parse [0x68, 0x69] = []"
  by (simp add: processLine_def trim_def isWhiteSpace_def isLineTerminator_def js_def)

theorem close_without_end_is_done_witness:
  "(200::nat) \<le> 200 \<and> (200::nat) \<le> 299 \<and>
   api_sendMessageStream example_parse (Response 200 (Body [[0x68, 0x69, 0x0A]] Closed))
     = ([OnChunk done_chunk], None) \<and>
   \<not> aborted (trackers started_state 0) \<and>
   isLoading (onChunk 0 3 4 done_chunk started_state) = False \<and>
   error (onChunk 0 3 4 done_chunk started_state) = None \<and>
   messages (onChunk 0 3 4 done_chunk started_state) = messages started_state"
  using close_without_end_is_done [of 200 example_parse "[[0x68, 0x69, 0x0A]]" started_state 0 3 4]
    frameLines_no_event processLine_no_event
  by (simp add: started_state_def del: frameLines.simps)

section \<open>What the tool-result pattern matches\<close>

lemma startsWith_append: "startsWith s p \<Longrightarrow> s = p @ drop (length p) s"
  by (induction s p rule: startsWith.induct) simp_all

lemma lazyDotsThenBrace_shape:
  "lazyDotsThenBrace s = Some m \<Longrightarrow>
   \<exists>body post. m = body @ [0x7D] \<and> s = m @ post \<and> 0x7D \<notin> set body \<and>
     (\<forall>c \<in> set body. \<not> isLineTerminator c)"
proof (induction s arbitrary: m)
  case Nil
  then show ?case by simp
next
  case (Cons c cs)
  show ?case
  proof (cases "c = 0x7D")
    case True
    with Cons.prems have "m = [] @ [0x7D]" "c # cs = m @ cs" by simp_all
    then show ?thesis by fastforce
  next
    case False
    with Cons.prems obtain m' where m': "lazyDotsThenBrace cs = Some m'" "m = c # m'"
      and c: "\<not> isLineTerminator c"
      by (auto split: if_splits)
    from Cons.IH [OF m'(1)] obtain body post where
      b: "m' = body @ [0x7D]" "cs = m' @ post" "0x7D \<notin> set body"
         "\<forall>c \<in> set body. \<not> isLineTerminator c"
      by blast
    have "m = (c # body) @ [0x7D]" "c # cs = m @ post" "0x7D \<notin> set (c # body)"
      "\<forall>x \<in> set (c # body). \<not> isLineTerminator x"
      using b m'(2) False c by simp_all
    then show ?thesis by blast
  qed
qed

lemma toolResultPattern_at_shape:
  assumes "toolResultPattern_at s = Some m"
  shows "\<exists>body post. m = js ''{'path':'' @ body @ [0x7D] \<and> s = m @ post \<and> 0x7D \<notin> set body \<and>
           (\<forall>c \<in> set body. \<not> isLineTerminator c)"
proof -
  have p: "startsWith s (js ''{'path':'')"
    using assms by (simp add: toolResultPattern_at_def split: if_splits)
  have len: "length (js ''{'path':'') = 8" by (simp add: js_def)
  from assms p obtain m' where m': "lazyDotsThenBrace (drop 8 s) = Some m'"
    "m = js ''{'path':'' @ m'"
    by (auto simp: toolResultPattern_at_def)
  from lazyDotsThenBrace_shape [OF m'(1)] obtain body post where
    b: "m' = body @ [0x7D]" "drop 8 s = m' @ post" "0x7D \<notin> set body"
       "\<forall>c \<in> set body. \<not> isLineTerminator c"
    by blast
  have "s = js ''{'path':'' @ drop 8 s" using startsWith_append [OF p] len by simp
  then have "s = m @ post" using b(2) m'(2) by simp
  with b m'(2) show ?thesis by blast
qed

lemma toolResultPattern_exec_shape:
  "toolResultPattern_exec text = Some m \<Longrightarrow>
   \<exists>pre body post. text = pre @ m @ post \<and> m = js ''{'path':'' @ body @ [0x7D] \<and>
     0x7D \<notin> set body \<and> (\<forall>c \<in> set body. \<not> isLineTerminator c)"
proof (induction "text")
  case Nil
  then show ?case by simp
next
  case (Cons c cs)
  show ?case
  proof (cases "toolResultPattern_at (c # cs)")
    case None
    with Cons.prems have "toolResultPattern_exec cs = Some m" by simp
    from Cons.IH [OF this] obtain pre body post where
      "cs = pre @ m @ post" "m = js ''{'path':'' @ body @ [0x7D]" "0x7D \<notin> set body"
      "\<forall>c \<in> set body. \<not> isLineTerminator c"
      by blast
    then have "c # cs = (c # pre) @ m @ post" by simp
    with \<open>m = js ''{'path':'' @ body @ [0x7D]\<close> \<open>0x7D \<notin> set body\<close>
      \<open>\<forall>c \<in> set body. \<not> isLineTerminator c\<close>
    show ?thesis by blast
  next
    case (Some m0)
    with Cons.prems have "toolResultPattern_at (c # cs) = Some m" by simp
    from toolResultPattern_at_shape [OF this] obtain body post where
      "m = js ''{'path':'' @ body @ [0x7D]" "c # cs = m @ post" "0x7D \<notin> set body"
      "\<forall>c \<in> set body. \<not> isLineTerminator c"
      by blast
    then have "c # cs = [] @ m @ post" by simp
    with \<open>m = js ''{'path':'' @ body @ [0x7D]\<close> \<open>0x7D \<notin> set body\<close>
      \<open>\<forall>c \<in> set body. \<not> isLineTerminator c\<close>
    show ?thesis by blast
  qed
qed

lemma toolResultPattern_exec_nonempty: "toolResultPattern_exec text = Some m \<Longrightarrow> m \<noteq> []"
  using toolResultPattern_exec_shape [of "text" m] by auto

section \<open>The callback of the hook\<close>

lemma contentUpdater_nonempty:
  "prev \<noteq> [] \<Longrightarrow>
   contentUpdater now1 now2 text prev =
     (if sender (last prev) = Ai then
        (if toolResultPattern_test text then
           prev @ [\<lparr>sender = Tool,
                     content = (case toolResultPattern_exec text of
                                  Some m \<Rightarrow> if m = [] then text else m | None \<Rightarrow> text),
                     timestamp = Some now1\<rparr>,
                   \<lparr>sender = Ai, content = [], timestamp = Some now2\<rparr>]
         else prev[length prev - 1 := (last prev)\<lparr>content := content (last prev) @ text\<rparr>])
      else prev)"
  by (cases prev) (simp_all add: contentUpdater_def Let_def)

lemma contentUpdater_split:
  assumes "toolResultPattern_exec text = Some m" and "sender lastMsg = Ai"
  shows "contentUpdater now1 now2 text (ms @ [lastMsg]) =
           ms @ [lastMsg, \<lparr>sender = Tool, content = m, timestamp = Some now1\<rparr>,
                 \<lparr>sender = Ai, content = [], timestamp = Some now2\<rparr>]"
proof -
  have "m \<noteq> []" using assms(1) by (rule toolResultPattern_exec_nonempty)
  then show ?thesis using assms
    by (simp add: contentUpdater_nonempty toolResultPattern_test_def)
qed

lemma contentUpdater_append:
  assumes "\<not> toolResultPattern_test text" and "sender lastMsg = Ai"
  shows "contentUpdater now1 now2 text (ms @ [lastMsg]) =
           ms @ [lastMsg\<lparr>content := content lastMsg @ text\<rparr>]"
  using assms by (simp add: contentUpdater_nonempty)

lemma contentUpdater_not_ai:
  "prev = [] \<or> sender (last prev) \<noteq> Ai \<Longrightarrow> contentUpdater now1 now2 text prev = prev"
  by (cases prev) (auto simp: contentUpdater_def Let_def)

lemma onChunk_aborted:
  "aborted (trackers st h) \<Longrightarrow>
   onChunk h now1 now2 chunk st =
     st\<lparr>console := console st @ [ConsoleLog (js ''[useChat] Stream aborted - session changed'')]\<rparr>"
  by (simp add: onChunk_def)

lemma onChunk_content:
  "\<not> aborted (trackers st h) \<Longrightarrow> chunk_type chunk = Content \<Longrightarrow>
   chunk_content chunk = Some text \<Longrightarrow> text \<noteq> [] \<Longrightarrow>
   onChunk h now1 now2 chunk st = st\<lparr>messages := contentUpdater now1 now2 text (messages st)\<rparr>"
  by (simp add: onChunk_def truthy_def)

lemma onChunk_keeps_trackers: "trackers (onChunk h now1 now2 chunk st) = trackers st"
  by (simp add: onChunk_def Let_def split: option.splits)

lemma execute_stmts:
  "execute (sendMessageStream_stmts cur userInput sessionIdArg now1 now2 h target)
     \<lparr>rendered = st, queue = []\<rparr> =
   (\<lparr>rendered =
       (if truthy sessionIdArg \<and> sessionIdArg \<noteq> cur
        then (abortActive st)\<lparr>currentSessionId := sessionIdArg\<rparr> else abortActive st)
       \<lparr>trackers := (trackers (abortActive st))(h := \<lparr>sessionId = target, aborted = False\<rparr>),
        nextTracker := Suc h, activeStreamRef := Some h, error := None, isLoading := True,
        messages := messages st @ [\<lparr>sender = Human, content = userInput, timestamp = Some now1\<rparr>,
                                    \<lparr>sender = Ai, content = [], timestamp = Some now2\<rparr>]\<rparr>,
      queue = []\<rparr>,
    [(if truthy sessionIdArg \<and> sessionIdArg \<noteq> cur
      then (abortActive st)\<lparr>currentSessionId := sessionIdArg\<rparr> else abortActive st)
     \<lparr>trackers := (trackers (abortActive st))(h := \<lparr>sessionId = target, aborted = False\<rparr>),
      nextTracker := Suc h, activeStreamRef := Some h, error := None, isLoading := True,
      messages := messages st @ [\<lparr>sender = Human, content = userInput, timestamp = Some now1\<rparr>,
                                  \<lparr>sender = Ai, content = [], timestamp = Some now2\<rparr>]\<rparr>])"
  by (simp add: sendMessageStream_stmts_def render_def Let_def abortActive_def split: option.splits)

lemma begin_cases:
  "sendMessageStream_begin cur userInput sessionIdArg now1 now2 st = Inr (h, st') \<Longrightarrow>
   \<exists>target. targetSessionId sessionIdArg cur = Some target \<and> target \<noteq> [] \<and> h = nextTracker st \<and>
     execute (sendMessageStream_stmts cur userInput sessionIdArg now1 now2 h target)
       \<lparr>rendered = st, queue = []\<rparr> = (\<lparr>rendered = st', queue = []\<rparr>, [st'])"
  by (auto simp: sendMessageStream_begin_def Let_def execute_stmts split: option.splits if_splits)

text \<open>
  A second \<open>sendMessageStream\<close> marks the tracker of the first as aborted, when the
  address of the new tracker is a new one.
\<close>

lemma begin_aborts_previous:
  assumes "sendMessageStream_begin cur userInput sessionIdArg now1 now2 st = Inr (h, st')"
    and "activeStreamRef st = Some a" and "a \<noteq> nextTracker st"
  shows "aborted (trackers st' a) \<and> \<not> aborted (trackers st' h) \<and> activeStreamRef st' = Some h"
  using assms
  by (auto simp: sendMessageStream_begin_def Let_def execute_stmts abortActive_def
      split: option.splits if_splits)

lemma begin_idle:
  "sendMessageStream_begin (Some (js ''s1'')) (js ''run report'') None 11 12 idle_state
     = Inr (0, started_state)"
  by (simp add: sendMessageStream_begin_def Let_def execute_stmts abortActive_def idle_state_def
      started_state_def truthy_def targetSessionId_def js_def)

lemma begin_started:
  "sendMessageStream_begin (Some (js ''s1'')) (js ''again'') None 3 4 started_state
     = Inr (1, stale_state)"
  by (simp add: sendMessageStream_begin_def Let_def execute_stmts abortActive_def stale_state_def
      started_state_def truthy_def targetSessionId_def js_def fun_upd_twist)

text \<open>
  With a closure that has captured no session id, and no argument, the call throws,
  whatever the session id of the state is.
\<close>

lemma begin_stale_closure:
  "sendMessageStream_begin None userInput None now1 now2 st
     = Inl (ErrorObject (js ''No active session''))"
  by (simp add: sendMessageStream_begin_def targetSessionId_def truthy_def)

lemma deliver_aborted:
  "aborted (trackers st h) \<Longrightarrow> messages (deliver h chunks st) = messages st"
proof (induction chunks arbitrary: st)
  case Nil
  then show ?case by simp
next
  case (Cons x rest)
  obtain now1 now2 chunk where x: "x = (now1, now2, chunk)" by (cases x)
  have "aborted (trackers (onChunk h now1 now2 chunk st) h)"
    using Cons.prems by (simp add: onChunk_keeps_trackers)
  from Cons.IH [OF this] Cons.prems show ?case by (simp add: x onChunk_aborted)
qed

text \<open>
  C1. A chunk of any type, delivered through the callback of a stream whose tracker has
  \<open>aborted = true\<close>, leaves the message list as it was, whatever the list is; so does
  any number of such chunks, one after the other.
\<close>

theorem aborted_chunk_keeps_transcript:
  "aborted (trackers st h) \<Longrightarrow>
   messages (onChunk h now1 now2 chunk st) = messages st \<and>
   messages (deliver h chunks st) = messages st"
  by (simp add: onChunk_aborted deliver_aborted)

theorem aborted_chunk_keeps_transcript_witness:
  "aborted (trackers stale_state 0) \<and>
   messages (onChunk 0 5 6 (content_chunk (js ''late'')) stale_state) = messages stale_state \<and>
   messages (deliver 0 [(5, 6, content_chunk (js ''late'')), (7, 8, done_chunk)] stale_state)
     = messages stale_state"
  using aborted_chunk_keeps_transcript [of stale_state 0 5 6 "content_chunk (js ''late'')"
      "[(5, 6, content_chunk (js ''late'')), (7, 8, done_chunk)]"]
  by (simp add: stale_state_def del: deliver.simps)

text \<open>
  The model of rendering tells a start in two runs from the start of the source: with
  an \<open>await\<close> between the two appends, a render can show the human message alone.
\<close>

lemma await_between_appends:
  "snd (execute
     [SetState (\<lambda>prev. prev\<lparr>messages := messages prev @ [userMessage]\<rparr>), Await,
      SetState (\<lambda>prev. prev\<lparr>messages := messages prev @ [aiMessage]\<rparr>), Await]
     \<lparr>rendered = st, queue = []\<rparr>) =
   [st\<lparr>messages := messages st @ [userMessage]\<rparr>,
    st\<lparr>messages := messages st @ [userMessage, aiMessage]\<rparr>]"
  by (simp add: render_def Let_def)

text \<open>
  C3. From the call of \<open>sendMessageStream\<close> up to its first \<open>await\<close>, every state that
  a render can show has, at the end of the transcript that was there before, the
  human message with the input text and right after it the empty ai message: no
  state shows the human message of the turn without its placeholder. When the call
  starts a turn there is one such state, the state at the \<open>await\<close>; when the call
  throws there is none, and nothing has been appended.
\<close>

theorem startUserTurn_atomic:
  "(\<forall>s \<in> set (sendMessageStream_renders cur userInput sessionIdArg now1 now2 st).
      messages s = messages st @ [\<lparr>sender = Human, content = userInput, timestamp = Some now1\<rparr>,
                                  \<lparr>sender = Ai, content = [], timestamp = Some now2\<rparr>]) \<and>
   (sendMessageStream_begin cur userInput sessionIdArg now1 now2 st = Inr (h, st') \<longrightarrow>
      sendMessageStream_renders cur userInput sessionIdArg now1 now2 st = [st']) \<and>
   (sendMessageStream_begin cur userInput sessionIdArg now1 now2 st = Inl e \<longrightarrow>
      sendMessageStream_renders cur userInput sessionIdArg now1 now2 st = [])"
  by (auto simp: sendMessageStream_renders_def sendMessageStream_begin_def Let_def execute_stmts
      split: option.splits if_splits)

theorem startUserTurn_atomic_witness:
  "sendMessageStream_begin (Some (js ''s1'')) (js ''run report'') None 11 12 idle_state
     = Inr (0, started_state) \<and>
   sendMessageStream_renders (Some (js ''s1'')) (js ''run report'') None 11 12 idle_state
     = [started_state] \<and>
   messages started_state =
     messages idle_state @ [\<lparr>sender = Human, content = js ''run report'', timestamp = Some 11\<rparr>,
                            \<lparr>sender = Ai, content = [], timestamp = Some 12\<rparr>]"
  using startUserTurn_atomic [of "Some (js ''s1'')" "js ''run report''" None 11 12 idle_state
      0 started_state] begin_idle
  by simp

text \<open>
  Later in the turn, while only the callback of this stream runs, the human message
  stays where it is and the message right after it stays an ai message.
\<close>

lemma contentUpdater_keeps_pair:
  assumes "Suc p < length ms" and "sender (ms ! Suc p) = Ai"
  shows "take (Suc p) (contentUpdater now1 now2 t ms) = take (Suc p) ms \<and>
         Suc p < length (contentUpdater now1 now2 t ms) \<and>
         sender (contentUpdater now1 now2 t ms ! Suc p) = Ai"
proof -
  have ne: "ms \<noteq> []" using assms(1) by auto
  have l: "last ms = ms ! (length ms - 1)" using ne by (rule last_conv_nth)
  show ?thesis
    using assms
    by (auto simp: contentUpdater_nonempty [OF ne] nth_append nth_list_update l)
qed

lemma onChunk_keeps_pair:
  assumes "Suc p < length (messages st)" and "sender (messages st ! Suc p) = Ai"
  shows "take (Suc p) (messages (onChunk h now1 now2 chunk st)) = take (Suc p) (messages st) \<and>
         Suc p < length (messages (onChunk h now1 now2 chunk st)) \<and>
         sender (messages (onChunk h now1 now2 chunk st) ! Suc p) = Ai"
  using assms contentUpdater_keeps_pair [OF assms]
  by (auto simp: onChunk_def Let_def split: option.splits)

lemma deliver_keeps_pair:
  "Suc p < length (messages st) \<Longrightarrow> sender (messages st ! Suc p) = Ai \<Longrightarrow>
   take (Suc p) (messages (deliver h chunks st)) = take (Suc p) (messages st) \<and>
   Suc p < length (messages (deliver h chunks st)) \<and>
   sender (messages (deliver h chunks st) ! Suc p) = Ai"
proof (induction chunks arbitrary: st)
  case Nil
  then show ?case by simp
next
  case (Cons x rest)
  obtain now1 now2 chunk where x: "x = (now1, now2, chunk)" by (cases x)
  from onChunk_keeps_pair [OF Cons.prems, of h now1 now2 chunk]
  have k: "take (Suc p) (messages (onChunk h now1 now2 chunk st)) = take (Suc p) (messages st)"
    "Suc p < length (messages (onChunk h now1 now2 chunk st))"
    "sender (messages (onChunk h now1 now2 chunk st) ! Suc p) = Ai"
    by simp_all
  from Cons.IH [OF k(2,3)] k(1) show ?case by (simp add: x)
qed

lemma turn_keeps_pair:
  assumes "sendMessageStream_begin cur userInput sessionIdArg now1 now2 st = Inr (h, st')"
  shows "take (Suc (length (messages st))) (messages (deliver h chunks st')) =
           messages st @ [\<lparr>sender = Human, content = userInput, timestamp = Some now1\<rparr>] \<and>
         Suc (length (messages st)) < length (messages (deliver h chunks st')) \<and>
         sender (messages (deliver h chunks st') ! Suc (length (messages st))) = Ai"
proof -
  have m: "messages st' = messages st @ [\<lparr>sender = Human, content = userInput, timestamp = Some now1\<rparr>,
                                          \<lparr>sender = Ai, content = [], timestamp = Some now2\<rparr>]"
    using assms
    by (auto simp: sendMessageStream_begin_def Let_def execute_stmts split: option.splits if_splits)
  have a: "Suc (length (messages st)) < length (messages st')"
    and b: "sender (messages st' ! Suc (length (messages st))) = Ai"
    by (simp_all add: m nth_append)
  from deliver_keeps_pair [OF a b, of h chunks] show ?thesis by (simp add: m)
qed

text \<open>
  C4. A content chunk whose text has a match of the tool-result pattern, applied by a
  live stream when the last message is an ai message: the transcript then ends with
  that ai message as it was, a tool message whose content is the matched text, and an
  empty ai message. The empty ai message is the one that the next plain content chunk
  extends.
\<close>

theorem tool_output_split:
  assumes "\<not> aborted (trackers st h)"
    and "chunk_type chunk = Content" and "chunk_content chunk = Some text"
    and "toolResultPattern_exec text = Some m"
    and "messages st = ms @ [lastMsg]" and "sender lastMsg = Ai"
  shows "messages (onChunk h now1 now2 chunk st) =
           ms @ [lastMsg, \<lparr>sender = Tool, content = m, timestamp = Some now1\<rparr>,
                 \<lparr>sender = Ai, content = [], timestamp = Some now2\<rparr>] \<and>
         (text2 \<noteq> [] \<and> \<not> toolResultPattern_test text2 \<longrightarrow>
            messages (onChunk h now3 now4 (content_chunk text2) (onChunk h now1 now2 chunk st)) =
              ms @ [lastMsg, \<lparr>sender = Tool, content = m, timestamp = Some now1\<rparr>,
                    \<lparr>sender = Ai, content = text2, timestamp = Some now2\<rparr>])"
proof -
  have "text \<noteq> []" using assms(4) by auto
  then have 1: "onChunk h now1 now2 chunk st =
      st\<lparr>messages := ms @ [lastMsg, \<lparr>sender = Tool, content = m, timestamp = Some now1\<rparr>,
                               \<lparr>sender = Ai, content = [], timestamp = Some now2\<rparr>]\<rparr>"
    using assms by (simp add: onChunk_content contentUpdater_split)
  have 2: "messages (onChunk h now3 now4 (content_chunk text2) (onChunk h now1 now2 chunk st)) =
      ms @ [lastMsg, \<lparr>sender = Tool, content = m, timestamp = Some now1\<rparr>,
            \<lparr>sender = Ai, content = text2, timestamp = Some now2\<rparr>]"
    if t: "text2 \<noteq> []" "\<not> toolResultPattern_test text2"
  proof -
    have "contentUpdater now3 now4 text2
            ((ms @ [lastMsg, \<lparr>sender = Tool, content = m, timestamp = Some now1\<rparr>])
               @ [\<lparr>sender = Ai, content = [], timestamp = Some now2\<rparr>]) =
          (ms @ [lastMsg, \<lparr>sender = Tool, content = m, timestamp = Some now1\<rparr>])
            @ [\<lparr>sender = Ai, content = [], timestamp = Some now2\<rparr>\<lparr>content := [] @ text2\<rparr>]"
      using contentUpdater_append [OF t(2),
          of "\<lparr>sender = Ai, content = [], timestamp = Some now2\<rparr>" now3 now4
             "ms @ [lastMsg, \<lparr>sender = Tool, content = m, timestamp = Some now1\<rparr>]"]
      by simp
    then show ?thesis
      using assms(1) t(1) by (simp add: 1 onChunk_content [of _ _ _ text2] content_chunk_def)
  qed
  from 1 2 show ?thesis by simp
qed

lemma tool_payload_match: "toolResultPattern_exec tool_payload = Some tool_payload"
  by (simp add: tool_payload_def toolResultPattern_at_def js_def isLineTerminator_def)

lemma plain_text_no_match: "\<not> toolResultPattern_test (js '' finished'')"
  by (simp add: toolResultPattern_test_def toolResultPattern_at_def js_def)

theorem tool_output_split_witness:
  "\<not> aborted (trackers started_state 0) \<and>
   toolResultPattern_exec tool_payload = Some tool_payload \<and>
   messages (onChunk 0 5 6 (content_chunk tool_payload) started_state) =
     [\<lparr>sender = Human, content = js ''run report'', timestamp = Some 11\<rparr>,
      \<lparr>sender = Ai, content = [], timestamp = Some 12\<rparr>,
      \<lparr>sender = Tool, content = tool_payload, timestamp = Some 5\<rparr>,
      \<lparr>sender = Ai, content = [], timestamp = Some 6\<rparr>] \<and>
   messages (onChunk 0 7 8 (content_chunk (js '' finished''))
              (onChunk 0 5 6 (content_chunk tool_payload) started_state)) =
     [\<lparr>sender = Human, content = js ''run report'', timestamp = Some 11\<rparr>,
      \<lparr>sender = Ai, content = [], timestamp = Some 12\<rparr>,
      \<lparr>sender = Tool, content = tool_payload, timestamp = Some 5\<rparr>,
      \<lparr>sender = Ai, content = js '' finished'', timestamp = Some 6\<rparr>]"
  using tool_output_split [of started_state 0 "content_chunk tool_payload" tool_payload tool_payload
      "[\<lparr>sender = Human, content = js ''run report'', timestamp = Some 11\<rparr>]"
      "\<lparr>sender = Ai, content = [], timestamp = Some 12\<rparr>" 5 6 "js '' finished''" 7 8]
    tool_payload_match plain_text_no_match
  by (simp add: started_state_def content_chunk_def js_def)

text \<open>
  C8. On a live stream, a done chunk puts the loading flag down, and a second done
  chunk for the same stream changes nothing in the state of the hook.
\<close>

theorem done_twice_idempotent:
  assumes "\<not> aborted (trackers st h)" and "chunk_type chunk = Done"
  shows "isLoading (onChunk h now1 now2 chunk st) = False \<and>
         onChunk h now3 now4 chunk (onChunk h now1 now2 chunk st) = onChunk h now1 now2 chunk st"
  using assms by (simp add: onChunk_def Let_def)

theorem done_twice_idempotent_witness:
  "\<not> aborted (trackers started_state 0) \<and> chunk_type done_chunk = Done \<and>
   isLoading (onChunk 0 3 4 done_chunk started_state) = False \<and>
   onChunk 0 5 6 done_chunk (onChunk 0 3 4 done_chunk started_state)
     = onChunk 0 3 4 done_chunk started_state"
  using done_twice_idempotent [of started_state 0 done_chunk 3 4 5 6]
  by (simp add: started_state_def done_chunk_def)

text \<open>
  C10. A content chunk whose content is the empty string, or is missing, leaves the
  message list as it was, whatever the list is; on a live stream it leaves the whole
  state of the hook as it was.
\<close>

theorem empty_content_chunk_dropped:
  "chunk_type chunk = Content \<Longrightarrow> \<not> truthy (chunk_content chunk) \<Longrightarrow>
   messages (onChunk h now1 now2 chunk st) = messages st \<and>
   (\<not> aborted (trackers st h) \<longrightarrow> onChunk h now1 now2 chunk st = st)"
  by (simp add: onChunk_def)

theorem empty_content_chunk_dropped_witness:
  "chunk_type (content_chunk []) = Content \<and> \<not> truthy (chunk_content (content_chunk [])) \<and>
   \<not> aborted (trackers started_state 0) \<and>
   messages (onChunk 0 3 4 (content_chunk []) started_state) = messages started_state \<and>
   onChunk 0 3 4 (content_chunk []) started_state = started_state"
  using empty_content_chunk_dropped [of "content_chunk []" 0 3 4 started_state]
  by (simp add: content_chunk_def truthy_def started_state_def)

text \<open>
  C9, as the code has it. A content chunk without a match of the tool-result pattern,
  applied by a live stream while the last message is not an ai message, is dropped
  and nothing is reported: the transcript, the error state, the console and all the
  rest of the state of the hook stay as they were.
\<close>

theorem orphan_chunk_dropped_silently:
  assumes "\<not> aborted (trackers st h)"
    and "chunk_type chunk = Content" and "chunk_content chunk = Some text"
    and "\<not> toolResultPattern_test text"
    and "messages st \<noteq> []" and "sender (last (messages st)) \<noteq> Ai"
  shows "onChunk h now1 now2 chunk st = st"
  using assms
  by (cases "text = []") (simp_all add: onChunk_def truthy_def contentUpdater_not_ai)

lemma late_no_match: "\<not> toolResultPattern_test (js ''late'')"
  by (simp add: toolResultPattern_test_def toolResultPattern_at_def js_def)

theorem orphan_chunk_dropped_silently_witness:
  "\<not> aborted (trackers orphan_state 0) \<and> \<not> toolResultPattern_test (js ''late'') \<and>
   messages orphan_state \<noteq> [] \<and> sender (last (messages orphan_state)) \<noteq> Ai \<and>
   onChunk 0 3 4 (content_chunk (js ''late'')) orphan_state = orphan_state"
  using orphan_chunk_dropped_silently [of orphan_state 0 "content_chunk (js ''late'')" "js ''late''" 3 4]
    late_no_match
  by (simp add: orphan_state_def content_chunk_def)

text \<open>
  C9, as the specification has it, fails: in \<open>orphan_state\<close> the chunk is dropped, but
  the step does not report an error.
\<close>

theorem orphan_chunk_reported_counterexample:
  "\<not> aborted (trackers orphan_state 0) \<and> \<not> toolResultPattern_test (js ''late'') \<and>
   sender (last (messages orphan_state)) \<noteq> Ai \<and>
   \<not> (messages (onChunk 0 3 4 (content_chunk (js ''late'')) orphan_state) = messages orphan_state \<and>
      reportsError orphan_state (onChunk 0 3 4 (content_chunk (js ''late'')) orphan_state))"
proof -
  have "onChunk 0 3 4 (content_chunk (js ''late'')) orphan_state = orphan_state"
    using late_no_match
    by (simp add: onChunk_def truthy_def contentUpdater_not_ai orphan_state_def content_chunk_def
        js_def)
  then show ?thesis using late_no_match by (simp add: reportsError_def orphan_state_def)
qed

section \<open>Rollback after a transport failure\<close>

lemma catch_live:
  "\<not> aborted (trackers st h) \<Longrightarrow>
   sendMessageStream_catch h err st =
     st\<lparr>error := Some (case err of ErrorObject m \<Rightarrow> m | OtherThrown \<Rightarrow> js ''Failed to send message''),
        console := console st @ [ConsoleError (case err of ErrorObject m \<Rightarrow> m
                                               | OtherThrown \<Rightarrow> js ''Failed to send message'')],
        messages := slice_0_minus2 (messages st),
        isLoading := False\<rparr>"
  by (simp add: sendMessageStream_catch_def sendMessageStream_finally_def Let_def)

text \<open>
  When the last two messages are still the pair of the turn, the rollback removes that
  pair and leaves the messages before it.
\<close>

lemma rollback_intact_pair:
  "\<not> aborted (trackers st h) \<Longrightarrow> messages st = ms @ [userMessage, aiMessage] \<Longrightarrow>
   messages (sendMessageStream_catch h err st) = ms \<and>
   error (sendMessageStream_catch h err st) \<noteq> None"
  by (simp add: catch_live slice_0_minus2_def)

lemma running_no_match: "\<not> toolResultPattern_test (js ''Running...'')"
  by (simp add: toolResultPattern_test_def toolResultPattern_at_def js_def)

text \<open>
  C7 at a failing input. The user sends \<open>run report\<close>; the stream brings
  \<open>Running...\<close> and then a tool result, and then a read is rejected. The rollback
  removes the tool message and the empty ai message after it; the human message of
  the failed turn and its ai message stay in the transcript.
\<close>

theorem rollback_after_tool_split:
  "sendMessageStream_begin (Some (js ''s1'')) (js ''run report'') None 11 12 idle_state
     = Inr (0, started_state) \<and>
   messages (onChunk 0 5 6 (content_chunk tool_payload)
              (onChunk 0 3 4 (content_chunk (js ''Running...'')) started_state)) =
     [\<lparr>sender = Human, content = js ''run report'', timestamp = Some 11\<rparr>,
      \<lparr>sender = Ai, content = js ''Running...'', timestamp = Some 12\<rparr>,
      \<lparr>sender = Tool, content = tool_payload, timestamp = Some 5\<rparr>,
      \<lparr>sender = Ai, content = [], timestamp = Some 6\<rparr>] \<and>
   messages (sendMessageStream_catch 0 (ErrorObject (js ''network error''))
              (onChunk 0 5 6 (content_chunk tool_payload)
                (onChunk 0 3 4 (content_chunk (js ''Running...'')) started_state))) =
     [\<lparr>sender = Human, content = js ''run report'', timestamp = Some 11\<rparr>,
      \<lparr>sender = Ai, content = js ''Running...'', timestamp = Some 12\<rparr>]"
proof -
  let ?human = "\<lparr>sender = Human, content = js ''run report'', timestamp = Some 11\<rparr>"
  let ?st1 = "onChunk 0 3 4 (content_chunk (js ''Running...'')) started_state"
  let ?st2 = "onChunk 0 5 6 (content_chunk tool_payload) ?st1"
  have live: "\<not> aborted (trackers started_state 0)" by (simp add: started_state_def)
  have r: "js ''Running...'' \<noteq> []" "tool_payload \<noteq> []" by (simp_all add: js_def tool_payload_def)
  have m0: "messages started_state = [?human, \<lparr>sender = Ai, content = [], timestamp = Some 12\<rparr>]"
    by (simp add: started_state_def)
  have c1: "contentUpdater 3 4 (js ''Running...'')
              [?human, \<lparr>sender = Ai, content = [], timestamp = Some 12\<rparr>] =
            [?human, \<lparr>sender = Ai, content = js ''Running...'', timestamp = Some 12\<rparr>]"
    using contentUpdater_append [OF running_no_match,
        of "\<lparr>sender = Ai, content = [], timestamp = Some 12\<rparr>" 3 4 "[?human]", simplified]
    by simp
  have e1: "?st1 = started_state\<lparr>messages := contentUpdater 3 4 (js ''Running...'') (messages started_state)\<rparr>"
    by (rule onChunk_content [OF live _ _ r(1)]) (simp_all add: content_chunk_def)
  have m1: "messages ?st1 = [?human, \<lparr>sender = Ai, content = js ''Running...'', timestamp = Some 12\<rparr>]"
    by (subst e1) (simp add: m0 c1)
  have live1: "\<not> aborted (trackers ?st1 0)"
    using live by (simp add: onChunk_keeps_trackers)
  have c2: "contentUpdater 5 6 tool_payload
              [?human, \<lparr>sender = Ai, content = js ''Running...'', timestamp = Some 12\<rparr>] =
            [?human, \<lparr>sender = Ai, content = js ''Running...'', timestamp = Some 12\<rparr>,
             \<lparr>sender = Tool, content = tool_payload, timestamp = Some 5\<rparr>,
             \<lparr>sender = Ai, content = [], timestamp = Some 6\<rparr>]"
    using contentUpdater_split [OF tool_payload_match,
        of "\<lparr>sender = Ai, content = js ''Running...'', timestamp = Some 12\<rparr>" 5 6 "[?human]",
        simplified]
    by simp
  have e2: "?st2 = ?st1\<lparr>messages := contentUpdater 5 6 tool_payload (messages ?st1)\<rparr>"
    by (rule onChunk_content [OF live1 _ _ r(2)]) (simp_all add: content_chunk_def)
  have m2: "messages ?st2 =
      [?human, \<lparr>sender = Ai, content = js ''Running...'', timestamp = Some 12\<rparr>,
       \<lparr>sender = Tool, content = tool_payload, timestamp = Some 5\<rparr>,
       \<lparr>sender = Ai, content = [], timestamp = Some 6\<rparr>]"
    by (subst e2) (simp add: m1 c2)
  have live2: "\<not> aborted (trackers ?st2 0)"
    using live by (simp add: onChunk_keeps_trackers)
  have m3: "messages (sendMessageStream_catch 0 (ErrorObject (js ''network error'')) ?st2) =
      [?human, \<lparr>sender = Ai, content = js ''Running...'', timestamp = Some 12\<rparr>]"
    by (simp add: catch_live [OF live2] slice_0_minus2_def m2)
  from begin_idle m2 m3 show ?thesis by simp
qed

end
